theory Spec2Isabelle
  imports Main "HOL-Library.Monad_Syntax" "HOL-Library.Multiset" "HOL-Library.Sublist"
begin

section \<open>Customer Notes: the data model and its derived views\<close>

text \<open>
  The model follows \<^verbatim>\<open>src/app/page.tsx\<close>. The component's React state becomes a record
  that every operation takes and returns; \<^verbatim>\<open>uid()\<close> and \<^verbatim>\<open>Date.now()\<close> are
  arguments of the operations that call them. JavaScript strings are modelled as
  \<^typ>\<open>string\<close>; the model compares them, concatenates them, tests them for emptiness and
  searches them for substrings. The built-ins \<^verbatim>\<open>String.prototype.trim\<close> and
  \<^verbatim>\<open>String.prototype.toLowerCase\<close> rest on Unicode tables that are no part of the program:
  they are arguments \<open>trim\<close> and \<open>toLowerCase\<close> of the operations that call them, and every
  theorem holds for whatever functions they are. Timestamps are integers.
\<close>

subsection \<open>Types\<close>

record Folder =
  id :: string
  parentId :: "string option"
  name :: string
  createdAt :: int

record Note =
  id :: string
  folderId :: string
  title :: string
  content :: string
  createdAt :: int
  updatedAt :: int

text \<open>\<^verbatim>\<open>Partial<Note>\<close>: every field may be absent.\<close>

record NotePatch =
  patch_id :: "string option"
  patch_folderId :: "string option"
  patch_title :: "string option"
  patch_content :: "string option"
  patch_createdAt :: "int option"
  patch_updatedAt :: "int option"

text \<open>
  The \<^verbatim>\<open>useState\<close> cells that the folder and note operations read or write
  (\<^verbatim>\<open>loaded\<close> and \<^verbatim>\<open>expandedFolders\<close> are touched by none of them).
\<close>

record state =
  folders :: "Folder list"
  "notes" :: "Note list"
  activeFolderId :: string
  activeNoteId :: "string option"
  editingFolderId :: "string option"
  folderDraft :: string
  search :: string

subsection \<open>String built-ins\<close>

text \<open>
  \<^verbatim>\<open>s.trim()\<close> and \<^verbatim>\<open>s.toLowerCase()\<close> are not defined here: \<open>commitRename\<close> takes the
  first and \<open>matchesSearch\<close> the second as an argument.
\<close>


subsection \<open>Array built-ins\<close>

text \<open>
  \<^verbatim>\<open>children.flatMap(g)\<close> where the callback may fail to return: the results are
  concatenated in order, and the whole call returns nothing as soon as one callback does not.
\<close>

primrec flatMap :: "('a \<Rightarrow> 'b list option) \<Rightarrow> 'a list \<Rightarrow> 'b list option" where
  "flatMap g [] = Some []"
| "flatMap g (c # cs) = do { ys \<leftarrow> g c; zs \<leftarrow> flatMap g cs; Some (ys @ zs) }"

lemma flatMap_mono [partial_function_mono]:
  assumes "\<And>c. mono_option (\<lambda>f. B f c)"
  shows "mono_option (\<lambda>f. flatMap (B f) cs)"
proof (induction cs)
  case Nil
  show ?case by (simp add: option.const_mono)
next
  case (Cons c cs)
  show ?case
    unfolding flatMap.simps
    by (intro partial_function_mono assms Cons.IH)
qed



subsection \<open>Folder helpers\<close>

text \<open>
  \<^verbatim>\<open>getFolderAndDescendants\<close> recurses along the \<^verbatim>\<open>parentId\<close> links and does not return
  when they form a cycle below \<open>fid\<close>; \<open>None\<close> is that case.
\<close>

partial_function (option) getFolderAndDescendants :: "Folder list \<Rightarrow> string \<Rightarrow> string list option" where
  "getFolderAndDescendants fs fid =
     (let children = filter (\<lambda>f. parentId f = Some fid) fs
      in do { ds \<leftarrow> flatMap (\<lambda>c. getFolderAndDescendants fs (Folder.id c)) children;
              Some (fid # ds) })"

declare getFolderAndDescendants.simps [code]

subsection \<open>Folder operations\<close>

text \<open>\<open>trim\<close> is the built-in of \<^verbatim>\<open>folderDraft.trim() || "Untitled"\<close>.\<close>

definition commitRename :: "(string \<Rightarrow> string) \<Rightarrow> state \<Rightarrow> string \<Rightarrow> state" where
  "commitRename trim st i =
     (let t = trim (folderDraft st);
          nm = (if t \<noteq> [] then t else ''Untitled'')
      in st\<lparr>folders := map (\<lambda>f. if Folder.id f = i then f\<lparr>name := nm\<rparr> else f) (folders st),
            editingFolderId := None\<rparr>)"

text \<open>
  The specification's \<open>renameFolder(id, newName)\<close>: the rename input sets the draft
  (\<^verbatim>\<open>setFolderDraft\<close>) and leaving the input commits it.
\<close>

definition renameFolder :: "(string \<Rightarrow> string) \<Rightarrow> state \<Rightarrow> string \<Rightarrow> string \<Rightarrow> state" where
  "renameFolder trim st i newName = commitRename trim (st\<lparr>folderDraft := newName\<rparr>) i"

definition deleteFolder :: "state \<Rightarrow> string \<Rightarrow> state option" where
  "deleteFolder st i =
     do { idsToDelete \<leftarrow> getFolderAndDescendants (folders st) i;
          Some (st\<lparr>folders := filter (\<lambda>f. Folder.id f \<notin> set idsToDelete) (folders st),
                   notes := filter (\<lambda>n. folderId n \<notin> set idsToDelete) (notes st),
                   activeFolderId :=
                     (if activeFolderId st \<in> set idsToDelete then ''all'' else activeFolderId st),
                   activeNoteId :=
                     (if activeFolderId st \<in> set idsToDelete then None else activeNoteId st)\<rparr>) }"

subsection \<open>Note operations\<close>

text \<open>\<open>newId\<close> is the value of \<^verbatim>\<open>uid()\<close>, \<open>t1\<close> and \<open>t2\<close> those of the two \<^verbatim>\<open>Date.now()\<close>.\<close>

definition addNote :: "state \<Rightarrow> string \<Rightarrow> int \<Rightarrow> int \<Rightarrow> state" where
  "addNote st newId t1 t2 =
     (let create = (\<lambda>s fid.
            s\<lparr>notes := \<lparr>Note.id = newId, folderId = fid, title = [], content = [],
                         createdAt = t1, updatedAt = t2\<rparr> # notes s,
              activeNoteId := Some newId\<rparr>)
      in if activeFolderId st = ''all'' then
           (if length (folders st) = 0 then st
            else case find (\<lambda>f. parentId f = None) (folders st) of
                   None \<Rightarrow> st
                 | Some topLevel \<Rightarrow>
                     create (st\<lparr>activeFolderId := Folder.id topLevel\<rparr>) (Folder.id topLevel))
         else create st (activeFolderId st))"

text \<open>The object spread \<^verbatim>\<open>{ ...n, ...patch, updatedAt: now }\<close>.\<close>

definition applyPatch :: "Note \<Rightarrow> NotePatch \<Rightarrow> int \<Rightarrow> Note" where
  "applyPatch n p now =
     \<lparr>Note.id = (case patch_id p of Some v \<Rightarrow> v | None \<Rightarrow> Note.id n),
      folderId = (case patch_folderId p of Some v \<Rightarrow> v | None \<Rightarrow> folderId n),
      title = (case patch_title p of Some v \<Rightarrow> v | None \<Rightarrow> title n),
      content = (case patch_content p of Some v \<Rightarrow> v | None \<Rightarrow> content n),
      createdAt = (case patch_createdAt p of Some v \<Rightarrow> v | None \<Rightarrow> Note.createdAt n),
      updatedAt = now\<rparr>"

definition updateNote :: "state \<Rightarrow> string \<Rightarrow> NotePatch \<Rightarrow> int \<Rightarrow> state" where
  "updateNote st i p now =
     st\<lparr>notes := map (\<lambda>n. if Note.id n = i then applyPatch n p now else n) (notes st)\<rparr>"

definition deleteNote :: "state \<Rightarrow> string \<Rightarrow> state" where
  "deleteNote st i =
     st\<lparr>notes := filter (\<lambda>n. Note.id n \<noteq> i) (notes st),
        activeNoteId := (if activeNoteId st = Some i then None else activeNoteId st)\<rparr>"

subsection \<open>Derived state\<close>





definition noteCount :: "state \<Rightarrow> string \<Rightarrow> nat option" where
  "noteCount st fid =
     do { allIds \<leftarrow> getFolderAndDescendants (folders st) fid;
          Some (length (filter (\<lambda>n. folderId n \<in> set allIds) (notes st))) }"

text \<open>\<^verbatim>\<open>if (folder.parentId)\<close> is a truthiness test: \<^verbatim>\<open>null\<close> and the empty string fail it.\<close>

definition folderPath :: "Folder list \<Rightarrow> string \<Rightarrow> string" where
  "folderPath fs fid =
     (case find (\<lambda>f. Folder.id f = fid) fs of
        None \<Rightarrow> ''Unknown''
      | Some folder \<Rightarrow>
          (case parentId folder of
             None \<Rightarrow> name folder
           | Some p \<Rightarrow>
               if p \<noteq> [] then
                 (case find (\<lambda>f. Folder.id f = p) fs of
                    Some parent \<Rightarrow> name parent @ '' / '' @ name folder
                  | None \<Rightarrow> name folder)
               else name folder))"

subsection \<open>Notions of the specification\<close>

text \<open>The \<^verbatim>\<open>parentId\<close> links as a relation from a parent's id to a child's id.\<close>

definition childRel :: "Folder list \<Rightarrow> (string \<times> string) set" where
  "childRel fs = {(p, c). \<exists>f \<in> set fs. parentId f = Some p \<and> Folder.id f = c}"

text \<open>The ids reachable from \<open>i\<close> along the links, \<open>i\<close> included.\<close>

definition reachable :: "Folder list \<Rightarrow> string \<Rightarrow> string set" where
  "reachable fs i = (childRel fs)\<^sup>* `` {i}"


text \<open>
  Referential integrity: a \<^verbatim>\<open>parentId\<close> that is present is the id of a folder in the list, and
  so is every note's \<^verbatim>\<open>folderId\<close>.
\<close>

definition referentialIntegrity :: "state \<Rightarrow> bool" where
  "referentialIntegrity st \<longleftrightarrow>
     list_all (\<lambda>f. case parentId f of None \<Rightarrow> True
                    | Some p \<Rightarrow> p \<in> set (map Folder.id (folders st))) (folders st)
     \<and> list_all (\<lambda>n. folderId n \<in> set (map Folder.id (folders st))) (notes st)"

subsection \<open>Example data\<close>

text \<open>
  What the two string built-ins compute on strings of ASCII characters, as the example data
  are: \<^verbatim>\<open>trim\<close> strips tab, line feed, vertical tab, form feed, carriage return and
  space from both ends; \<^verbatim>\<open>toLowerCase\<close> sets bit 5 of the letters A to Z.
\<close>

definition asciiWhiteSpace :: "char \<Rightarrow> bool" where
  "asciiWhiteSpace c \<longleftrightarrow> c \<in> set [CHR 0x09, CHR 0x0A, CHR 0x0B, CHR 0x0C, CHR 0x0D, CHR 0x20]"

definition asciiTrim :: "string \<Rightarrow> string" where
  "asciiTrim s = rev (dropWhile asciiWhiteSpace (rev (dropWhile asciiWhiteSpace s)))"



text \<open>The state the component starts in: the initial values of its \<^verbatim>\<open>useState\<close> cells.\<close>

definition initialState :: state where
  "initialState =
     \<lparr>folders = [], notes = [], activeFolderId = ''all'', activeNoteId = None,
      editingFolderId = None, folderDraft = [], search = []\<rparr>"

text \<open>
  The scenario of the specification: the customer Acme with the subfolder Billing, a second
  customer, and one folder a level deeper, which the operations must handle as well.
\<close>

definition exampleFolders :: "Folder list" where
  "exampleFolders =
     [\<lparr>Folder.id = ''a'', parentId = None, name = ''Acme'', createdAt = 1\<rparr>,
      \<lparr>Folder.id = ''b'', parentId = Some ''a'', name = ''Billing'', createdAt = 2\<rparr>,
      \<lparr>Folder.id = ''c'', parentId = None, name = ''Globex'', createdAt = 3\<rparr>,
      \<lparr>Folder.id = ''d'', parentId = Some ''b'', name = ''Archive'', createdAt = 4\<rparr>]"

definition exampleNotes :: "Note list" where
  "exampleNotes =
     [\<lparr>Note.id = ''n1'', folderId = ''b'', title = ''Invoice #1'', content = ''Net 30'',
       createdAt = 10, updatedAt = 100\<rparr>,
      \<lparr>Note.id = ''n2'', folderId = ''c'', title = ''Kickoff'', content = ''invoice pending'',
       createdAt = 20, updatedAt = 200\<rparr>,
      \<lparr>Note.id = ''n3'', folderId = ''d'', title = ''Old INVOICE'', content = [],
       createdAt = 30, updatedAt = 150\<rparr>,
      \<lparr>Note.id = ''n4'', folderId = ''a'', title = ''Contacts'', content = ''Ann'',
       createdAt = 40, updatedAt = 300\<rparr>,
      \<lparr>Note.id = ''n5'', folderId = ''b'', title = ''Reminder'', content = ''send invoice'',
       createdAt = 50, updatedAt = 100\<rparr>]"

definition exampleState :: state where
  "exampleState =
     \<lparr>folders = exampleFolders, notes = exampleNotes, activeFolderId = ''a'',
      activeNoteId = Some ''n1'', editingFolderId = None, folderDraft = [], search = ''Invoice''\<rparr>"


definition exampleAfterDelete :: state where
  "exampleAfterDelete =
     \<lparr>folders = [\<lparr>Folder.id = ''c'', parentId = None, name = ''Globex'', createdAt = 3\<rparr>],
      notes = [\<lparr>Note.id = ''n2'', folderId = ''c'', title = ''Kickoff'', content = ''invoice pending'',
                createdAt = 20, updatedAt = 200\<rparr>],
      activeFolderId = ''all'', activeNoteId = None, editingFolderId = None, folderDraft = [],
      search = ''Invoice''\<rparr>"

text \<open>The state once the second customer is deleted instead.\<close>

definition exampleAfterDeleteGlobex :: state where
  "exampleAfterDeleteGlobex =
     exampleState\<lparr>folders := filter (\<lambda>f. Folder.id f \<noteq> ''c'') exampleFolders,
                  notes := filter (\<lambda>n. folderId n \<noteq> ''c'') exampleNotes\<rparr>"

text \<open>The same state with no folder selected, and a patch that sets a title.\<close>

definition allState :: state where
  "allState = exampleState\<lparr>activeFolderId := ''all''\<rparr>"

definition titlePatch :: NotePatch where
  "titlePatch =
     \<lparr>patch_id = None, patch_folderId = None, patch_title = Some ''Renewal'', patch_content = None,
      patch_createdAt = None, patch_updatedAt = None\<rparr>"

text \<open>Two folders that name each other as parent, as a stored snapshot may contain them.\<close>

definition cyclicFolders :: "Folder list" where
  "cyclicFolders =
     [\<lparr>Folder.id = ''a'', parentId = Some ''b'', name = ''A'', createdAt = 1\<rparr>,
      \<lparr>Folder.id = ''b'', parentId = Some ''a'', name = ''B'', createdAt = 2\<rparr>]"

text \<open>A subfolder whose parent is not in the list, alone in a state with no folder selected.\<close>

definition orphanFolders :: "Folder list" where
  "orphanFolders = [\<lparr>Folder.id = ''b'', parentId = Some ''a'', name = ''Billing'', createdAt = 2\<rparr>]"

definition orphanState :: state where
  "orphanState =
     \<lparr>folders = orphanFolders, notes = [], activeFolderId = ''all'', activeNoteId = None,
      editingFolderId = None, folderDraft = [], search = []\<rparr>"

section \<open>Descendants of a folder\<close>

lemma flatMap_set:
  assumes "flatMap g cs = Some ds"
  shows "set ds = (\<Union>c \<in> set cs. set (the (g c)))"
  using assms
proof (induction cs arbitrary: ds)
  case Nil
  then show ?case by simp
next
  case (Cons c cs)
  then obtain ys zs where "g c = Some ys" "flatMap g cs = Some zs" "ds = ys @ zs"
    by (auto simp: bind_eq_Some_conv)
  with Cons.IH show ?case by simp
qed

lemma flatMap_total:
  assumes "\<And>c. c \<in> set cs \<Longrightarrow> \<exists>ys. g c = Some ys"
  shows "\<exists>ds. flatMap g cs = Some ds"
  using assms
proof (induction cs)
  case Nil
  show ?case by simp
next
  case (Cons c cs)
  then obtain ys where "g c = Some ys" by auto
  moreover from Cons obtain zs where "flatMap g cs = Some zs" by auto
  ultimately show ?case by simp
qed

lemma flatMap_defined:
  assumes "flatMap g cs = Some ds" "c \<in> set cs"
  shows "\<exists>ys. g c = Some ys"
  using assms
  by (induction cs arbitrary: ds) (auto simp: bind_eq_Some_conv)

lemma childRel_iff:
  "(p, c) \<in> childRel fs \<longleftrightarrow> (\<exists>f \<in> set fs. parentId f = Some p \<and> Folder.id f = c)"
  by (simp add: childRel_def)

lemma reachable_unfold:
  "reachable fs i = insert i (\<Union>c \<in> set (filter (\<lambda>f. parentId f = Some i) fs). reachable fs (Folder.id c))"
proof -
  have "(i, j) \<in> (childRel fs)\<^sup>* \<longleftrightarrow> i = j \<or> (\<exists>k. (i, k) \<in> childRel fs \<and> (k, j) \<in> (childRel fs)\<^sup>*)" for j
    by (metis converse_rtranclE converse_rtrancl_into_rtrancl rtrancl.rtrancl_refl)
  then show ?thesis
    by (auto simp: reachable_def childRel_iff)
qed

lemma getFolderAndDescendants_set:
  assumes "getFolderAndDescendants fs i = Some ids"
  shows "set ids = reachable fs i"
proof (rule getFolderAndDescendants.raw_induct
    [where P = "\<lambda>fs i ids. set ids = reachable fs i", OF _ assms])
  fix g :: "Folder list \<Rightarrow> string \<Rightarrow> string list option"
    and fs :: "Folder list" and i ids
  let ?children = "filter (\<lambda>f. parentId f = Some i) fs"
  assume IH: "\<And>fs' i' y. g fs' i' = Some y \<Longrightarrow> set y = reachable fs' i'"
  assume "(let children = filter (\<lambda>f. parentId f = Some i) fs
           in flatMap (\<lambda>c. g fs (Folder.id c)) children \<bind> (\<lambda>ds. Some (i # ds))) = Some ids"
  then obtain ds where ds: "flatMap (\<lambda>c. g fs (Folder.id c)) ?children = Some ds"
    and ids: "ids = i # ds"
    by (auto simp: bind_eq_Some_conv)
  have "set (the (g fs (Folder.id c))) = reachable fs (Folder.id c)" if "c \<in> set ?children" for c
  proof -
    from flatMap_defined [OF ds that] obtain ys where "g fs (Folder.id c) = Some ys" by blast
    with IH show ?thesis by simp
  qed
  with flatMap_set [OF ds] have "set ds = (\<Union>c \<in> set ?children. reachable fs (Folder.id c))"
    by simp
  with ids show "set ids = reachable fs i"
    by (subst reachable_unfold) simp
qed

lemma finite_childRel: "finite (childRel fs)"
proof -
  have "childRel fs \<subseteq> (\<lambda>f. (the (parentId f), Folder.id f)) ` set fs"
    by (auto simp: childRel_def image_iff) force
  then show ?thesis by (rule finite_subset) simp
qed

lemma getFolderAndDescendants_total:
  assumes "acyclic (childRel fs)"
  shows "\<exists>ids. getFolderAndDescendants fs i = Some ids"
proof -
  from assms have "wf ((childRel fs)\<inverse>)"
    by (simp add: finite_acyclic_wf_converse finite_childRel)
  then show ?thesis
  proof (induction i rule: wf_induct_rule)
    case (less i)
    let ?children = "filter (\<lambda>f. parentId f = Some i) fs"
    have "\<exists>ds. flatMap (\<lambda>c. getFolderAndDescendants fs (Folder.id c)) ?children = Some ds"
    proof (rule flatMap_total)
      fix c
      assume "c \<in> set ?children"
      then have "(Folder.id c, i) \<in> (childRel fs)\<inverse>" by (auto simp: childRel_iff)
      then show "\<exists>ys. getFolderAndDescendants fs (Folder.id c) = Some ys" by (rule less.IH)
    qed
    then obtain ds where
      "flatMap (\<lambda>c. getFolderAndDescendants fs (Folder.id c)) ?children = Some ds" ..
    then have "getFolderAndDescendants fs i = Some (i # ds)"
      by (subst getFolderAndDescendants.simps) simp
    then show ?case by blast
  qed
qed

lemma flatMap_map: "flatMap g (map h cs) = flatMap (\<lambda>c. g (h c)) cs"
  by (induction cs) simp_all

lemma getFolderAndDescendants_unfold:
  "getFolderAndDescendants fs i =
     flatMap (getFolderAndDescendants fs) (map Folder.id (filter (\<lambda>f. parentId f = Some i) fs))
       \<bind> (\<lambda>ds. Some (i # ds))"
  by (subst getFolderAndDescendants.simps) (simp add: flatMap_map)

lemma example_descendants:
  "getFolderAndDescendants exampleFolders ''a'' = Some [''a'', ''b'', ''d'']"
  by (simp add: getFolderAndDescendants_unfold exampleFolders_def)

lemma example_descendants_leaf: "getFolderAndDescendants exampleFolders ''c'' = Some [''c'']"
  by (simp add: getFolderAndDescendants_unfold exampleFolders_def)

lemma example_acyclic: "acyclic (childRel exampleFolders)"
proof -
  let ?rank = "\<lambda>s. if s = ''a'' then 2 else if s = ''b'' then 1 else (0::nat)"
  have "childRel exampleFolders \<subseteq> (measure ?rank)\<inverse>"
    by (auto simp: childRel_def exampleFolders_def)
  moreover have "acyclic ((measure ?rank)\<inverse>)"
    by (simp add: wf_acyclic)
  ultimately show ?thesis by (rule acyclic_subset [rotated])
qed

lemma cyclic_diverges: "getFolderAndDescendants cyclicFolders ''a'' = None"
proof (rule ccontr)
  assume "getFolderAndDescendants cyclicFolders ''a'' \<noteq> None"
  then obtain ids where r: "getFolderAndDescendants cyclicFolders ''a'' = Some ids" by blast
  have "fs = cyclicFolders \<longrightarrow> i \<in> {''a'', ''b''} \<longrightarrow> False"
    if "getFolderAndDescendants fs i = Some ids" for fs i ids
  proof (rule getFolderAndDescendants.raw_induct
      [where P = "\<lambda>fs i ids. fs = cyclicFolders \<longrightarrow> i \<in> {''a'', ''b''} \<longrightarrow> False", OF _ that])
    fix g :: "Folder list \<Rightarrow> string \<Rightarrow> string list option"
      and fs :: "Folder list" and i ids
    assume IH: "\<And>fs' i' y. g fs' i' = Some y \<Longrightarrow> fs' = cyclicFolders \<longrightarrow> i' \<in> {''a'', ''b''} \<longrightarrow> False"
    assume body: "(let children = filter (\<lambda>f. parentId f = Some i) fs
           in flatMap (\<lambda>c. g fs (Folder.id c)) children \<bind> (\<lambda>ds. Some (i # ds))) = Some ids"
    show "fs = cyclicFolders \<longrightarrow> i \<in> {''a'', ''b''} \<longrightarrow> False"
    proof (intro impI)
      assume fs: "fs = cyclicFolders" and i: "i \<in> {''a'', ''b''}"
      from body fs i have "\<exists>y. g cyclicFolders ''a'' = Some y \<or> g cyclicFolders ''b'' = Some y"
        by (auto simp: cyclicFolders_def bind_eq_Some_conv)
      with IH show False by blast
    qed
  qed
  with r show False by blast
qed

text \<open>
  C4: the ids that \<^verbatim>\<open>getFolderAndDescendants\<close> returns for a folder id contain that id, and
  an id is among them exactly when it is reachable from that id along \<^verbatim>\<open>parentId\<close> links
  (from parent to child, in any number of steps). The call returns whenever the links are
  acyclic.
\<close>

theorem descendants_exact:
  "(acyclic (childRel fs) \<longrightarrow> (\<exists>ids. getFolderAndDescendants fs i = Some ids))
   \<and> (\<forall>ids. getFolderAndDescendants fs i = Some ids \<longrightarrow>
         i \<in> set ids \<and> (\<forall>j. j \<in> set ids \<longleftrightarrow> (i, j) \<in> (childRel fs)\<^sup>*))"
proof -
  have "i \<in> set ids \<and> (\<forall>j. j \<in> set ids \<longleftrightarrow> (i, j) \<in> (childRel fs)\<^sup>*)"
    if "getFolderAndDescendants fs i = Some ids" for ids
    using getFolderAndDescendants_set [OF that] by (simp add: reachable_def)
  with getFolderAndDescendants_total [of fs i] show ?thesis by blast
qed

theorem descendants_exact_witness:
  "acyclic (childRel exampleFolders)
   \<and> getFolderAndDescendants exampleFolders ''a'' = Some [''a'', ''b'', ''d'']
   \<and> ''a'' \<in> set [''a'', ''b'', ''d'']
   \<and> (\<forall>j. j \<in> set [''a'', ''b'', ''d''] \<longleftrightarrow> (''a'', j) \<in> (childRel exampleFolders)\<^sup>*)"
  using descendants_exact [of exampleFolders "''a''"] example_descendants example_acyclic
  by simp

text \<open>
  C5: when the \<^verbatim>\<open>parentId\<close> relation of the folder list is acyclic,
  \<^verbatim>\<open>getFolderAndDescendants\<close> returns for every folder id.
\<close>

theorem descendants_terminates:
  assumes "acyclic (childRel fs)"
  shows "\<exists>ids. getFolderAndDescendants fs i = Some ids"
  using assms by (rule getFolderAndDescendants_total)

theorem descendants_terminates_witness:
  "acyclic (childRel exampleFolders) \<and> (\<exists>ids. getFolderAndDescendants exampleFolders ''d'' = Some ids)"
  using descendants_terminates [OF example_acyclic, of "''d''"] example_acyclic by simp

section \<open>The visible notes\<close>















section \<open>Deleting a folder\<close>

lemma deleteFolder_Some:
  "deleteFolder st i = Some st' \<longleftrightarrow>
     (\<exists>ids. getFolderAndDescendants (folders st) i = Some ids
        \<and> st' = st\<lparr>folders := filter (\<lambda>f. Folder.id f \<notin> set ids) (folders st),
                   notes := filter (\<lambda>n. folderId n \<notin> set ids) (notes st),
                   activeFolderId := (if activeFolderId st \<in> set ids then ''all'' else activeFolderId st),
                   activeNoteId := (if activeFolderId st \<in> set ids then None else activeNoteId st)\<rparr>)"
proof (cases "getFolderAndDescendants (folders st) i")
  case None
  then show ?thesis by (simp add: deleteFolder_def)
next
  case (Some ids)
  then show ?thesis by (simp add: deleteFolder_def eq_commute [of _ st'])
qed

lemma deleteFolder_total:
  assumes "acyclic (childRel (folders st))"
  shows "\<exists>st'. deleteFolder st i = Some st'"
proof -
  from assms obtain ids where "getFolderAndDescendants (folders st) i = Some ids"
    using getFolderAndDescendants_total by blast
  then show ?thesis by (simp add: deleteFolder_def)
qed

lemma deleteFolder_sound:
  assumes "deleteFolder st i = Some st'"
  shows "\<exists>ids. getFolderAndDescendants (folders st) i = Some ids
           \<and> folders st' = filter (\<lambda>f. Folder.id f \<notin> set ids) (folders st)
           \<and> notes st' = filter (\<lambda>n. folderId n \<notin> set ids) (notes st)
           \<and> (\<forall>f. f \<in> set (folders st') \<longleftrightarrow> f \<in> set (folders st) \<and> Folder.id f \<notin> set ids)
           \<and> (\<forall>n. n \<in> set (notes st') \<longleftrightarrow> n \<in> set (notes st) \<and> folderId n \<notin> set ids)"
proof -
  from assms obtain ids where ids: "getFolderAndDescendants (folders st) i = Some ids"
    and st': "st' = st\<lparr>folders := filter (\<lambda>f. Folder.id f \<notin> set ids) (folders st),
                   notes := filter (\<lambda>n. folderId n \<notin> set ids) (notes st),
                   activeFolderId := (if activeFolderId st \<in> set ids then ''all'' else activeFolderId st),
                   activeNoteId := (if activeFolderId st \<in> set ids then None else activeNoteId st)\<rparr>"
    unfolding deleteFolder_Some by blast
  have "folders st' = filter (\<lambda>f. Folder.id f \<notin> set ids) (folders st)"
    and "notes st' = filter (\<lambda>n. folderId n \<notin> set ids) (notes st)"
    by (simp_all add: st')
  with ids show ?thesis by auto
qed

lemma example_deleteFolder: "deleteFolder exampleState ''a'' = Some exampleAfterDelete"
proof -
  have "deleteFolder exampleState ''a'' =
      Some (exampleState\<lparr>folders := filter (\<lambda>f. Folder.id f \<notin> set [''a'', ''b'', ''d'']) exampleFolders,
                   notes := filter (\<lambda>n. folderId n \<notin> set [''a'', ''b'', ''d'']) exampleNotes,
                   activeFolderId := ''all'', activeNoteId := None\<rparr>)"
    by (simp add: deleteFolder_def exampleState_def example_descendants)
  also have "\<dots> = Some exampleAfterDelete"
    by (simp add: exampleState_def exampleNotes_def exampleFolders_def exampleAfterDelete_def)
  finally show ?thesis .
qed

lemma example_deleteFolder_leaf: "deleteFolder exampleState ''c'' = Some exampleAfterDeleteGlobex"
  by (simp add: deleteFolder_def exampleState_def example_descendants_leaf
      exampleAfterDeleteGlobex_def)

lemma example_integrity: "referentialIntegrity exampleState"
  by (simp add: referentialIntegrity_def exampleState_def exampleFolders_def exampleNotes_def)

text \<open>
  C1: \<^verbatim>\<open>deleteFolder\<close> keeps exactly the folders whose id is not among the descendants of the
  deleted id and exactly the notes whose \<^verbatim>\<open>folderId\<close> is not among them; what it keeps is
  unchanged and in the same order. The deletion goes through whenever the \<^verbatim>\<open>parentId\<close>
  links are acyclic.
\<close>

theorem deleteFolder_exact:
  "(acyclic (childRel (folders st)) \<longrightarrow> (\<exists>st'. deleteFolder st i = Some st'))
   \<and> (\<forall>st'. deleteFolder st i = Some st' \<longrightarrow>
        (\<exists>ids. getFolderAndDescendants (folders st) i = Some ids
           \<and> folders st' = filter (\<lambda>f. Folder.id f \<notin> set ids) (folders st)
           \<and> notes st' = filter (\<lambda>n. folderId n \<notin> set ids) (notes st)
           \<and> (\<forall>f. f \<in> set (folders st') \<longleftrightarrow> f \<in> set (folders st) \<and> Folder.id f \<notin> set ids)
           \<and> (\<forall>n. n \<in> set (notes st') \<longleftrightarrow> n \<in> set (notes st) \<and> folderId n \<notin> set ids)))"
  using deleteFolder_total [of st i] deleteFolder_sound [of st i] by blast

theorem deleteFolder_exact_witness:
  "acyclic (childRel (folders exampleState))
   \<and> deleteFolder exampleState ''a'' = Some exampleAfterDelete
   \<and> (\<exists>ids. getFolderAndDescendants (folders exampleState) ''a'' = Some ids
           \<and> folders exampleAfterDelete = filter (\<lambda>f. Folder.id f \<notin> set ids) (folders exampleState)
           \<and> notes exampleAfterDelete = filter (\<lambda>n. folderId n \<notin> set ids) (notes exampleState)
           \<and> (\<forall>f. f \<in> set (folders exampleAfterDelete) \<longleftrightarrow>
                    f \<in> set (folders exampleState) \<and> Folder.id f \<notin> set ids)
           \<and> (\<forall>n. n \<in> set (notes exampleAfterDelete) \<longleftrightarrow>
                    n \<in> set (notes exampleState) \<and> folderId n \<notin> set ids))"
proof -
  have "acyclic (childRel (folders exampleState))"
    by (simp add: exampleState_def example_acyclic)
  with deleteFolder_exact [of exampleState "''a''"] example_deleteFolder show ?thesis by simp
qed

text \<open>
  C2: when every present \<^verbatim>\<open>parentId\<close> and every note's \<^verbatim>\<open>folderId\<close> names a folder of the
  list, the same holds after \<^verbatim>\<open>deleteFolder\<close> of any folder id.
\<close>

theorem deleteFolder_preserves_integrity:
  assumes inv: "referentialIntegrity st"
    and del: "deleteFolder st i = Some st'"
  shows "referentialIntegrity st'"
proof -
  from del obtain ids where ids: "getFolderAndDescendants (folders st) i = Some ids"
    and fs': "folders st' = filter (\<lambda>f. Folder.id f \<notin> set ids) (folders st)"
    and ns': "notes st' = filter (\<lambda>n. folderId n \<notin> set ids) (notes st)"
    unfolding deleteFolder_Some by auto
  have D: "set ids = reachable (folders st) i"
    using ids by (rule getFolderAndDescendants_set)
  have kept: "j \<in> set (map Folder.id (folders st'))"
    if "j \<in> set (map Folder.id (folders st))" "j \<notin> set ids" for j
    using that by (auto simp: fs')
  have "p \<in> set (map Folder.id (folders st'))"
    if f: "f \<in> set (folders st')" and p: "parentId f = Some p" for f p
  proof -
    from f have fin: "f \<in> set (folders st)" and fD: "Folder.id f \<notin> set ids"
      by (simp_all add: fs')
    from inv fin p have "p \<in> set (map Folder.id (folders st))"
      by (auto simp: referentialIntegrity_def list_all_iff)
    moreover have "p \<notin> set ids"
    proof
      assume "p \<in> set ids"
      then have "(i, p) \<in> (childRel (folders st))\<^sup>*" by (simp add: D reachable_def)
      moreover from fin p have "(p, Folder.id f) \<in> childRel (folders st)"
        by (auto simp: childRel_iff)
      ultimately have "Folder.id f \<in> set ids" by (simp add: D reachable_def)
      with fD show False by contradiction
    qed
    ultimately show ?thesis by (rule kept)
  qed
  moreover have "folderId n \<in> set (map Folder.id (folders st'))" if n: "n \<in> set (notes st')" for n
  proof -
    from n have nin: "n \<in> set (notes st)" and nD: "folderId n \<notin> set ids"
      by (simp_all add: ns')
    from inv nin have "folderId n \<in> set (map Folder.id (folders st))"
      by (auto simp: referentialIntegrity_def list_all_iff)
    then show ?thesis using nD by (rule kept)
  qed
  ultimately show ?thesis
    by (auto simp: referentialIntegrity_def list_all_iff split: option.splits)
qed

theorem deleteFolder_preserves_integrity_witness:
  "referentialIntegrity exampleState \<and> deleteFolder exampleState ''a'' = Some exampleAfterDelete
   \<and> referentialIntegrity exampleAfterDelete"
  using deleteFolder_preserves_integrity [OF example_integrity example_deleteFolder]
    example_integrity example_deleteFolder by simp

text \<open>
  C6: when the active folder id is among the descendants of the deleted id, the active folder
  becomes \<^verbatim>\<open>"all"\<close> and the active note is cleared; otherwise both selections stay as they are.
\<close>

theorem deleteFolder_selection:
  assumes "deleteFolder st i = Some st'"
    and "getFolderAndDescendants (folders st) i = Some ids"
  shows "(activeFolderId st \<in> set ids \<longrightarrow> activeFolderId st' = ''all'' \<and> activeNoteId st' = None)
       \<and> (activeFolderId st \<notin> set ids \<longrightarrow>
            activeFolderId st' = activeFolderId st \<and> activeNoteId st' = activeNoteId st)"
  using assms by (auto simp: deleteFolder_Some)

theorem deleteFolder_selection_witness:
  "deleteFolder exampleState ''a'' = Some exampleAfterDelete
   \<and> getFolderAndDescendants (folders exampleState) ''a'' = Some [''a'', ''b'', ''d'']
   \<and> activeFolderId exampleState \<in> set [''a'', ''b'', ''d'']
   \<and> activeFolderId exampleAfterDelete = ''all'' \<and> activeNoteId exampleAfterDelete = None
   \<and> deleteFolder exampleState ''c'' = Some exampleAfterDeleteGlobex
   \<and> getFolderAndDescendants (folders exampleState) ''c'' = Some [''c'']
   \<and> activeFolderId exampleState \<notin> set [''c'']
   \<and> activeFolderId exampleAfterDeleteGlobex = activeFolderId exampleState
   \<and> activeNoteId exampleAfterDeleteGlobex = activeNoteId exampleState"
proof -
  have d: "getFolderAndDescendants (folders exampleState) ''a'' = Some [''a'', ''b'', ''d'']"
    by (simp add: exampleState_def example_descendants)
  have a: "activeFolderId exampleState \<in> set [''a'', ''b'', ''d'']"
    by (simp add: exampleState_def)
  from deleteFolder_selection [OF example_deleteFolder d] a
  have 1: "activeFolderId exampleAfterDelete = ''all'' \<and> activeNoteId exampleAfterDelete = None"
    by blast
  have d': "getFolderAndDescendants (folders exampleState) ''c'' = Some [''c'']"
    by (simp add: exampleState_def example_descendants_leaf)
  have a': "activeFolderId exampleState \<notin> set [''c'']"
    by (simp add: exampleState_def)
  from deleteFolder_selection [OF example_deleteFolder_leaf d'] a'
  have 2: "activeFolderId exampleAfterDeleteGlobex = activeFolderId exampleState
     \<and> activeNoteId exampleAfterDeleteGlobex = activeNoteId exampleState"
    by blast
  from example_deleteFolder d a 1 example_deleteFolder_leaf d' a' 2 show ?thesis by blast
qed

section \<open>Renaming a folder\<close>

lemma renameFolder_folders:
  "folders (renameFolder trim st i newName) =
     map (\<lambda>f. if Folder.id f = i
               then f\<lparr>name := (if trim newName = [] then ''Untitled'' else trim newName)\<rparr>
               else f) (folders st)"
  by (simp add: renameFolder_def commitRename_def Let_def)

lemma example_trim_blank: "asciiTrim ''   '' = []"
  by (simp add: asciiTrim_def asciiWhiteSpace_def)

lemma example_trim: "asciiTrim ''  Payments '' = ''Payments''"
  by (simp add: asciiTrim_def asciiWhiteSpace_def)

text \<open>
  C7: after \<^verbatim>\<open>renameFolder\<close> of a folder id that is in the list, the folder carries
  \<^verbatim>\<open>newName.trim()\<close>, or \<^verbatim>\<open>"Untitled"\<close> when that is empty, whatever function the built-in
  \<^verbatim>\<open>trim\<close> is; the name is never empty; and renaming a second time with the same arguments
  leaves the folder list as it is.
\<close>

theorem renameFolder_name:
  assumes "f \<in> set (folders st)" and "Folder.id f = i"
  shows "f\<lparr>name := (if trim newName = [] then ''Untitled'' else trim newName)\<rparr>
           \<in> set (folders (renameFolder trim st i newName))
       \<and> (\<forall>g \<in> set (folders (renameFolder trim st i newName)).
             Folder.id g = i \<longrightarrow>
               name g = (if trim newName = [] then ''Untitled'' else trim newName) \<and> name g \<noteq> [])
       \<and> folders (renameFolder trim (renameFolder trim st i newName) i newName) =
           folders (renameFolder trim st i newName)"
proof -
  let ?nm = "if trim newName = [] then ''Untitled'' else trim newName"
  let ?upd = "\<lambda>f. if Folder.id f = i then f\<lparr>name := ?nm\<rparr> else f"
  have nm: "?nm \<noteq> []" by simp
  have "?upd f \<in> set (map ?upd (folders st))" using assms(1) by (simp only: set_map) (rule imageI)
  with assms(2) have 1: "f\<lparr>name := ?nm\<rparr> \<in> set (folders (renameFolder trim st i newName))"
    by (simp add: renameFolder_folders)
  have 2: "name g = ?nm \<and> name g \<noteq> []"
    if "g \<in> set (folders (renameFolder trim st i newName))" "Folder.id g = i" for g
  proof -
    from that(1) obtain h where "h \<in> set (folders st)" "g = ?upd h"
      by (auto simp: renameFolder_folders)
    with that(2) have "name g = ?nm" by (cases "Folder.id h = i") auto
    with nm show ?thesis by simp
  qed
  have "map ?upd (map ?upd (folders st)) = map ?upd (folders st)"
    by simp
  then have 3: "folders (renameFolder trim (renameFolder trim st i newName) i newName) =
           folders (renameFolder trim st i newName)"
    by (simp only: renameFolder_folders)
  from 1 2 3 show ?thesis by blast
qed

theorem renameFolder_name_witness:
  "\<lparr>Folder.id = ''b'', parentId = Some ''a'', name = ''Billing'', createdAt = 2\<rparr> \<in> set (folders exampleState)
   \<and> \<lparr>Folder.id = ''b'', parentId = Some ''a'', name = ''Payments'', createdAt = 2\<rparr>
         \<in> set (folders (renameFolder asciiTrim exampleState ''b'' ''  Payments ''))
   \<and> \<lparr>Folder.id = ''b'', parentId = Some ''a'', name = ''Untitled'', createdAt = 2\<rparr>
         \<in> set (folders (renameFolder asciiTrim exampleState ''b'' ''   ''))
   \<and> folders (renameFolder asciiTrim (renameFolder asciiTrim exampleState ''b'' ''   '') ''b'' ''   '') =
       folders (renameFolder asciiTrim exampleState ''b'' ''   '')"
proof -
  let ?b = "\<lparr>Folder.id = ''b'', parentId = Some ''a'', name = ''Billing'', createdAt = 2\<rparr>"
  have m: "?b \<in> set (folders exampleState)"
    by (simp add: exampleState_def exampleFolders_def)
  have i: "Folder.id ?b = ''b''" by simp
  from renameFolder_name [OF m i, where trim = asciiTrim and newName = "''  Payments ''"]
    renameFolder_name [OF m i, where trim = asciiTrim and newName = "''   ''"] m
  show ?thesis by (simp add: example_trim example_trim_blank)
qed

section \<open>Unknown ids\<close>

text \<open>
  C8: for an id that no note has, \<^verbatim>\<open>updateNote\<close> and \<^verbatim>\<open>deleteNote\<close> return the note list
  unchanged; for an id that no folder has, \<^verbatim>\<open>renameFolder\<close> returns the folder list
  unchanged. The three operations are total: there is no error to signal.
\<close>

theorem unknown_id_noop:
  "(i \<notin> Note.id ` set (notes st) \<longrightarrow>
      notes (updateNote st i p now) = notes st \<and> notes (deleteNote st i) = notes st)
   \<and> (i \<notin> Folder.id ` set (folders st) \<longrightarrow> folders (renameFolder trim st i newName) = folders st)"
proof -
  have "map (\<lambda>n. if Note.id n = i then applyPatch n p now else n) (notes st) = notes st"
    if "i \<notin> Note.id ` set (notes st)"
    using that by (intro map_idI) auto
  moreover have "filter (\<lambda>n. Note.id n \<noteq> i) (notes st) = notes st"
    if "i \<notin> Note.id ` set (notes st)"
    using that by (intro filter_True) auto
  moreover have "folders (renameFolder trim st i newName) = folders st"
    if "i \<notin> Folder.id ` set (folders st)"
    unfolding renameFolder_folders using that by (intro map_idI) auto
  ultimately show ?thesis by (simp add: updateNote_def deleteNote_def)
qed

theorem unknown_id_noop_witness:
  "''zz'' \<notin> Note.id ` set (notes exampleState) \<and> ''zz'' \<notin> Folder.id ` set (folders exampleState)
   \<and> notes (updateNote exampleState ''zz'' titlePatch 999) = notes exampleState
   \<and> notes (deleteNote exampleState ''zz'') = notes exampleState
   \<and> folders (renameFolder asciiTrim exampleState ''zz'' ''Payments'') = folders exampleState"
proof -
  have n: "''zz'' \<notin> Note.id ` set (notes exampleState)"
    by (simp add: exampleState_def exampleNotes_def)
  have f: "''zz'' \<notin> Folder.id ` set (folders exampleState)"
    by (simp add: exampleState_def exampleFolders_def)
  from unknown_id_noop [where i = "''zz''" and st = exampleState and p = titlePatch
      and now = 999 and trim = asciiTrim and newName = "''Payments''"] n f
  show ?thesis by blast
qed

section \<open>The breadcrumb of a folder\<close>

text \<open>
  C9 as stated fails: a folder whose \<^verbatim>\<open>parentId\<close> is present but names no folder of the list
  gets its own name as path, not a string of the form \<^verbatim>\<open>parent / name\<close>.
\<close>

theorem folderPath_counterexample:
  "find (\<lambda>f. Folder.id f = ''b'') orphanFolders =
     Some \<lparr>Folder.id = ''b'', parentId = Some ''a'', name = ''Billing'', createdAt = 2\<rparr>
   \<and> folderPath orphanFolders ''b'' = ''Billing''
   \<and> \<not> (\<exists>parentName. folderPath orphanFolders ''b'' = parentName @ '' / '' @ ''Billing'')"
proof -
  have p: "folderPath orphanFolders ''b'' = ''Billing''"
    by (simp add: folderPath_def orphanFolders_def)
  have "length (parentName @ '' / '' @ ''Billing'') \<noteq> length ''Billing''" for parentName
    by simp
  then have "parentName @ '' / '' @ ''Billing'' \<noteq> ''Billing''" for parentName
    by metis
  with p show ?thesis by (simp add: orphanFolders_def)
qed

text \<open>
  C9 amended: \<^verbatim>\<open>folderPath\<close> returns \<^verbatim>\<open>"Unknown"\<close> when no folder has the id. Otherwise, for
  the first folder with the id: its name when \<^verbatim>\<open>parentId\<close> is absent or names no folder of
  the list; the parent's name, \<^verbatim>\<open>" / "\<close> and its name when \<^verbatim>\<open>parentId\<close> is a non-empty id
  that names a folder of the list.
\<close>

theorem folderPath_cases:
  "(find (\<lambda>f. Folder.id f = fid) fs = None \<longrightarrow> folderPath fs fid = ''Unknown'')
   \<and> (\<forall>folder. find (\<lambda>f. Folder.id f = fid) fs = Some folder \<longrightarrow>
         (parentId folder = None \<longrightarrow> folderPath fs fid = name folder)
       \<and> (\<forall>p. parentId folder = Some p \<longrightarrow>
             (find (\<lambda>f. Folder.id f = p) fs = None \<longrightarrow> folderPath fs fid = name folder)
           \<and> (\<forall>parent. p \<noteq> [] \<and> find (\<lambda>f. Folder.id f = p) fs = Some parent \<longrightarrow>
                 folderPath fs fid = name parent @ '' / '' @ name folder)))"
  by (simp add: folderPath_def)

theorem folderPath_cases_witness:
  "folderPath exampleFolders ''zz'' = ''Unknown''
   \<and> folderPath exampleFolders ''a'' = ''Acme''
   \<and> folderPath exampleFolders ''b'' = ''Acme / Billing''
   \<and> folderPath orphanFolders ''b'' = ''Billing''"
proof -
  let ?a = "\<lparr>Folder.id = ''a'', parentId = None, name = ''Acme'', createdAt = 1\<rparr>"
  let ?b = "\<lparr>Folder.id = ''b'', parentId = Some ''a'', name = ''Billing'', createdAt = 2\<rparr>"
  have z: "find (\<lambda>f. Folder.id f = ''zz'') exampleFolders = None"
    and a: "find (\<lambda>f. Folder.id f = ''a'') exampleFolders = Some ?a"
    and b: "find (\<lambda>f. Folder.id f = ''b'') exampleFolders = Some ?b"
    by (simp_all add: exampleFolders_def)
  have ob: "find (\<lambda>f. Folder.id f = ''b'') orphanFolders = Some ?b"
    and oa: "find (\<lambda>f. Folder.id f = ''a'') orphanFolders = None"
    by (simp_all add: orphanFolders_def)
  from folderPath_cases [of "''zz''" exampleFolders] z
  have 1: "folderPath exampleFolders ''zz'' = ''Unknown''" by blast
  from folderPath_cases [of "''a''" exampleFolders] a
  have 2: "folderPath exampleFolders ''a'' = ''Acme''" by simp
  from folderPath_cases [of "''b''" exampleFolders] a b
  have 3: "folderPath exampleFolders ''b'' = ''Acme / Billing''" by simp
  from folderPath_cases [of "''b''" orphanFolders] ob oa
  have 4: "folderPath orphanFolders ''b'' = ''Billing''" by simp
  from 1 2 3 4 show ?thesis by blast
qed

section \<open>Creating a note with no folder selected\<close>

text \<open>
  C10 as stated fails: with the active folder \<^verbatim>\<open>"all"\<close> and a folder list that is not empty
  but has no top-level folder, \<^verbatim>\<open>addNote\<close> creates no note.
\<close>

theorem addNote_counterexample:
  "activeFolderId orphanState = ''all'' \<and> folders orphanState \<noteq> []
   \<and> addNote orphanState ''n9'' 7 7 = orphanState \<and> notes (addNote orphanState ''n9'' 7 7) = []"
  by (simp add: addNote_def orphanState_def orphanFolders_def)

text \<open>
  C10 amended: with the active folder \<^verbatim>\<open>"all"\<close>, \<^verbatim>\<open>addNote\<close> changes nothing when the folder
  list has no top-level folder (in particular when it is empty); otherwise the new note is
  put in front of the note list with the id of the first top-level folder as \<^verbatim>\<open>folderId\<close>,
  that folder becomes the active folder and the new note the active note.
\<close>

theorem addNote_all:
  assumes "activeFolderId st = ''all''"
  shows "(folders st = [] \<longrightarrow> addNote st newId t1 t2 = st)
       \<and> (find (\<lambda>f. parentId f = None) (folders st) = None \<longrightarrow> addNote st newId t1 t2 = st)
       \<and> (\<forall>topLevel. find (\<lambda>f. parentId f = None) (folders st) = Some topLevel \<longrightarrow>
             notes (addNote st newId t1 t2) =
               \<lparr>Note.id = newId, folderId = Folder.id topLevel, title = [], content = [],
                createdAt = t1, updatedAt = t2\<rparr> # notes st
           \<and> activeFolderId (addNote st newId t1 t2) = Folder.id topLevel
           \<and> activeNoteId (addNote st newId t1 t2) = Some newId)"
proof -
  have 1: "addNote st newId t1 t2 = st" if "folders st = []"
    using assms that by (simp add: addNote_def)
  have 2: "addNote st newId t1 t2 = st" if "find (\<lambda>f. parentId f = None) (folders st) = None"
    using assms that by (simp add: addNote_def)
  have 3: "notes (addNote st newId t1 t2) =
               \<lparr>Note.id = newId, folderId = Folder.id topLevel, title = [], content = [],
                createdAt = t1, updatedAt = t2\<rparr> # notes st
           \<and> activeFolderId (addNote st newId t1 t2) = Folder.id topLevel
           \<and> activeNoteId (addNote st newId t1 t2) = Some newId"
    if "find (\<lambda>f. parentId f = None) (folders st) = Some topLevel" for topLevel
  proof -
    from that have "folders st \<noteq> []" by auto
    with assms that show ?thesis by (simp add: addNote_def)
  qed
  from 1 2 3 show ?thesis by blast
qed

theorem addNote_all_witness:
  "activeFolderId allState = ''all''
   \<and> find (\<lambda>f. parentId f = None) (folders allState) =
       Some \<lparr>Folder.id = ''a'', parentId = None, name = ''Acme'', createdAt = 1\<rparr>
   \<and> notes (addNote allState ''n9'' 7 8) =
       \<lparr>Note.id = ''n9'', folderId = ''a'', title = [], content = [], createdAt = 7, updatedAt = 8\<rparr>
         # notes allState
   \<and> activeFolderId (addNote allState ''n9'' 7 8) = ''a''
   \<and> activeNoteId (addNote allState ''n9'' 7 8) = Some ''n9''
   \<and> activeFolderId initialState = ''all'' \<and> folders initialState = []
   \<and> addNote initialState ''n9'' 7 8 = initialState
   \<and> activeFolderId orphanState = ''all''
   \<and> find (\<lambda>f. parentId f = None) (folders orphanState) = None
   \<and> addNote orphanState ''n9'' 7 8 = orphanState"
proof -
  have a: "activeFolderId allState = ''all''"
    by (simp add: allState_def)
  have t: "find (\<lambda>f. parentId f = None) (folders allState) =
       Some \<lparr>Folder.id = ''a'', parentId = None, name = ''Acme'', createdAt = 1\<rparr>"
    by (simp add: allState_def exampleState_def exampleFolders_def)
  from addNote_all [OF a, of "''n9''" 7 8] t
  have 1: "notes (addNote allState ''n9'' 7 8) =
       \<lparr>Note.id = ''n9'', folderId = ''a'', title = [], content = [], createdAt = 7, updatedAt = 8\<rparr>
         # notes allState
   \<and> activeFolderId (addNote allState ''n9'' 7 8) = ''a''
   \<and> activeNoteId (addNote allState ''n9'' 7 8) = Some ''n9''"
    by simp
  have i: "activeFolderId initialState = ''all''" and e: "folders initialState = []"
    by (simp_all add: initialState_def)
  from addNote_all [OF i, of "''n9''" 7 8] e
  have 2: "addNote initialState ''n9'' 7 8 = initialState" by blast
  have o: "activeFolderId orphanState = ''all''"
    and n: "find (\<lambda>f. parentId f = None) (folders orphanState) = None"
    by (simp_all add: orphanState_def orphanFolders_def)
  from addNote_all [OF o, of "''n9''" 7 8] n
  have 3: "addNote orphanState ''n9'' 7 8 = orphanState" by blast
  from a t 1 i e 2 o n 3 show ?thesis by blast
qed

end
